theory Spec2Isabelle
  imports Complex_Main
begin

section \<open>Data model of the stepping engine\<close>

text \<open>
  The development embeds \<^verbatim>\<open>archive/run_abm_no_social_updates.py\<close>: the classes
  \<^verbatim>\<open>Ref\<close> and \<^verbatim>\<open>Sim\<close> and the functions \<^verbatim>\<open>find_new_node\<close> and
  \<^verbatim>\<open>process_refs\<close>.

  Conventions of the embedding.
  \<^item> A node of the networkx graph is an integer (the random test graph) or a string (the
    district names of the shapefile); \<open>truthy\<close> is Python's truth value of such a key.
  \<^item> Python integers are \<open>int\<close>. Python floats are modelled by exact rationals: the sums,
    products and quotients of the source are computed without rounding.
  \<^item> An exception is a value \<open>Inl e\<close> of a sum type; where the source has already mutated
    the simulation when it raises, the state reached is returned next to the error.
  \<^item> The module-level dictionary \<^verbatim>\<open>config\<close> is a record passed as a parameter.
  \<^item> The generator of module \<^verbatim>\<open>random\<close> is a stream \<open>R\<close> of raw naturals and a
    position in it; each call of \<^verbatim>\<open>random.random\<close> or \<^verbatim>\<open>random.randint\<close> reads
    one element and advances the position by one. A worker process of a pool has its own
    position in the same stream.
\<close>

datatype node_id = NInt int | NStr string

fun truthy :: "node_id \<Rightarrow> bool" where
  "truthy (NInt i) = (i \<noteq> 0)"
| "truthy (NStr s) = (s \<noteq> [])"

datatype error =
  ValueError | ZeroDivisionError | KeyError | IndexError | TypeError | AttributeError
  | NetworkXError

datatype count_spec = Fixed int | Range int int

record config =
  num_friends :: count_spec
  num_kin :: count_spec
  percent_move_at_camp :: rat
  percent_move_at_conflict :: rat
  percent_move_other :: rat
  population_weight :: rat
  location_weight :: rat
  camp_weight :: rat
  conflict_weight :: rat
  kin_weight :: rat
  friend_weight :: rat
  seed_refs :: int
  seed_nodes :: "node_id list"

text \<open>
  The values the source file assigns to \<^verbatim>\<open>config\<close>. The literals \<^verbatim>\<open>0.3\<close> and
  \<^verbatim>\<open>0.7\<close> denote the doubles nearest to 3/10 and 7/10; their exact values are the
  two quotients below (the denominators are \<open>2^54\<close> and \<open>2^52\<close>). \<^verbatim>\<open>0.25\<close> and
  \<^verbatim>\<open>1\<close> are exact.
\<close>

definition source_config :: config where
  "source_config =
     \<lparr> num_friends = Fixed 1, num_kin = Fixed 1,
       percent_move_at_camp = 5404319552844595 / 18014398509481984,
       percent_move_at_conflict = 1,
       percent_move_other = 3152519739159347 / 4503599627370496,
       population_weight = 1 / 4, location_weight = 1 / 4, camp_weight = 1 / 4,
       conflict_weight = 1 / 4, kin_weight = 1 / 4, friend_weight = 1 / 4,
       seed_refs = 0,
       seed_nodes = [NStr ''Merkez Kilis'', NStr ''KarkamA+-A'', NStr ''YayladaAA+-'',
                     NStr ''Kumlu''] \<rparr>"

text \<open>
  The attribute dictionary of a node. The first four keys are set when the graph is
  built. A derived key is \<open>None\<close> as long as no statement has stored it:
  \<^verbatim>\<open>Sim.step\<close> stores \<^verbatim>\<open>norm_weight\<close> (line 248) and \<^verbatim>\<open>node_score\<close> (line 268);
  no statement of the source stores a key \<^verbatim>\<open>norm_camps\<close> or \<^verbatim>\<open>norm_conflicts\<close>.
\<close>

record node_attrs =
  weight :: int
  num_conflicts :: int
  num_camps :: int
  location_score :: rat
  norm_weight :: "rat option"
  norm_camps :: "rat option"
  norm_conflicts :: "rat option"
  node_score :: "rat option"

text \<open>
  The graph: its nodes in insertion order, the attribute dictionary of each node and the
  neighbours of each node in iteration order.
\<close>

record nxgraph =
  gnodes :: "node_id list"
  attrs :: "node_id \<Rightarrow> node_attrs"
  nbrs :: "node_id \<Rightarrow> node_id list"

record ref =
  node :: node_id
  kin_list :: "nat list"
  friend_list :: "nat list"

record sim =
  graph :: nxgraph
  num_steps :: nat
  num_processes :: int
  num_batches :: int
  num_refugees :: int
  all_refugees :: "ref list"

type_synonym rng = "nat \<Rightarrow> nat"

section \<open>Python and library primitives\<close>

text \<open>\<^verbatim>\<open>max(xs)\<close>: \<^verbatim>\<open>ValueError\<close> on an empty sequence.\<close>

definition py_max :: "int list \<Rightarrow> error + int" where
  "py_max xs = (case xs of [] \<Rightarrow> Inl ValueError | x # ys \<Rightarrow> Inr (fold max ys x))"

text \<open>\<^verbatim>\<open>x / y\<close> on integers: \<^verbatim>\<open>ZeroDivisionError\<close> when \<open>y\<close> is zero.\<close>

definition true_div :: "int \<Rightarrow> int \<Rightarrow> error + rat" where
  "true_div x y = (if y = 0 then Inl ZeroDivisionError else Inr (of_int x / of_int y))"

text \<open>A list comprehension whose element expression may raise.\<close>

fun map_r :: "('a \<Rightarrow> error + 'b) \<Rightarrow> 'a list \<Rightarrow> error + 'b list" where
  "map_r f [] = Inr []"
| "map_r f (x # xs) =
     (case f x of
        Inl e \<Rightarrow> Inl e
      | Inr y \<Rightarrow> (case map_r f xs of Inl e \<Rightarrow> Inl e | Inr ys \<Rightarrow> Inr (y # ys)))"

text \<open>\<^verbatim>\<open>xs[i]\<close> for a non-negative index.\<close>

definition list_get :: "'a list \<Rightarrow> nat \<Rightarrow> error + 'a" where
  "list_get xs i = (if i < length xs then Inr (xs ! i) else Inl IndexError)"

text \<open>\<^verbatim>\<open>xs[i]\<close> for a Python integer: a negative index counts from the end.\<close>

definition py_get :: "'a list \<Rightarrow> int \<Rightarrow> error + 'a" where
  "py_get xs i =
     (if 0 \<le> i
      then (if i < int (length xs) then Inr (xs ! nat i) else Inl IndexError)
      else (if - int (length xs) \<le> i then Inr (xs ! nat (int (length xs) + i))
            else Inl IndexError))"

text \<open>
  \<^verbatim>\<open>d[k] = 1\<close> on a dictionary whose values are all 1: the dictionary is the list of
  its keys in insertion order.
\<close>

definition dict_put :: "nat list \<Rightarrow> nat \<Rightarrow> nat list" where
  "dict_put d k = (if k \<in> set d then d else d @ [k])"

text \<open>
  \<^verbatim>\<open>random.random()\<close> returns \<open>k / 2^53\<close> for a 53-bit \<open>k\<close>;
  \<^verbatim>\<open>random.randint(a, b)\<close> returns an integer of \<open>[a, b]\<close> and raises
  \<^verbatim>\<open>ValueError\<close> on an empty range.
\<close>

definition random_random :: "rng \<Rightarrow> nat \<Rightarrow> rat \<times> nat" where
  "random_random R p = (of_nat (R p mod 9007199254740992) / 9007199254740992, Suc p)"

definition randint :: "rng \<Rightarrow> nat \<Rightarrow> int \<Rightarrow> int \<Rightarrow> error + int \<times> nat" where
  "randint R p a b =
     (if b < a then Inl ValueError
      else Inr (a + int (R p mod nat (b - a + 1)), Suc p))"

text \<open>\<^verbatim>\<open>graph.nodes[n]\<close>: \<^verbatim>\<open>KeyError\<close> for a node that is not in the graph.\<close>

definition node_data :: "nxgraph \<Rightarrow> node_id \<Rightarrow> error + node_attrs" where
  "node_data g n = (if n \<in> set (gnodes g) then Inr (attrs g n) else Inl KeyError)"

text \<open>\<^verbatim>\<open>graph.nodes[n]['node_score']\<close>.\<close>

definition get_node_score :: "nxgraph \<Rightarrow> node_id \<Rightarrow> error + rat" where
  "get_node_score g n =
     (case node_data g n of
        Inl e \<Rightarrow> Inl e
      | Inr a \<Rightarrow> (case node_score a of None \<Rightarrow> Inl KeyError | Some v \<Rightarrow> Inr v))"

text \<open>
  \<^verbatim>\<open>nx.set_node_attributes(graph, values, name)\<close> for a dictionary \<open>values\<close>, given
  as its items: a key that is not a node is skipped.
\<close>

definition put_attr ::
  "(node_attrs \<Rightarrow> 'v \<Rightarrow> node_attrs) \<Rightarrow> node_id \<times> 'v \<Rightarrow> nxgraph \<Rightarrow> nxgraph" where
  "put_attr upd kv g =
     (if fst kv \<in> set (gnodes g)
      then g\<lparr>attrs := (attrs g)(fst kv := upd (attrs g (fst kv)) (snd kv))\<rparr>
      else g)"

definition set_node_attributes ::
  "(node_attrs \<Rightarrow> 'v \<Rightarrow> node_attrs) \<Rightarrow> (node_id \<times> 'v) list \<Rightarrow> nxgraph \<Rightarrow> nxgraph" where
  "set_node_attributes upd kvs g = fold (put_attr upd) kvs g"

section \<open>Score recomputation (first part of \<^verbatim>\<open>Sim.step\<close>)\<close>

text \<open>
  Lines 241 to 248: the weights of all nodes, their maximum, the quotients. No floor is
  applied to the maximum.
\<close>

definition orig_weights :: "nxgraph \<Rightarrow> int list" where
  "orig_weights g = map (\<lambda>n. weight (attrs g n)) (gnodes g)"

definition step_norm_weights :: "nxgraph \<Rightarrow> error + rat list" where
  "step_norm_weights g =
     (case py_max (orig_weights g) of
        Inl e \<Rightarrow> Inl e
      | Inr max_pop \<Rightarrow> map_r (\<lambda>x. true_div x max_pop) (orig_weights g))"

text \<open>Lines 250 to 253 and 255 to 258: the maximum is taken over the values and 1.\<close>

definition normalize_floor1 :: "int list \<Rightarrow> error + rat list" where
  "normalize_floor1 xs =
     (case py_max (xs @ [1]) of
        Inl e \<Rightarrow> Inl e
      | Inr m \<Rightarrow> map_r (\<lambda>x. true_div x m) xs)"

definition step_norm_camps :: "nxgraph \<Rightarrow> error + rat list" where
  "step_norm_camps g = normalize_floor1 (map (\<lambda>n. num_camps (attrs g n)) (gnodes g))"

definition step_norm_conflicts :: "nxgraph \<Rightarrow> error + rat list" where
  "step_norm_conflicts g =
     normalize_floor1 (map (\<lambda>n. num_conflicts (attrs g n)) (gnodes g))"

text \<open>Lines 260 to 268: the score of each node, over the four zipped sequences.\<close>

fun node_scores :: "config \<Rightarrow> rat list \<Rightarrow> rat list \<Rightarrow> rat list \<Rightarrow> rat list \<Rightarrow> rat list" where
  "node_scores cfg (w # ws) (x # xs) (y # ys) (z # zs) =
     (w * population_weight cfg + x * location_weight cfg + y * camp_weight cfg
        + z * (- 1) * conflict_weight cfg) # node_scores cfg ws xs ys zs"
| "node_scores cfg _ _ _ _ = []"

definition step_score_values :: "config \<Rightarrow> nxgraph \<Rightarrow> error + nxgraph \<times> rat list \<times> rat list" where
  "step_score_values cfg g =
     (case step_norm_weights g of
        Inl e \<Rightarrow> Inl e
      | Inr nws \<Rightarrow>
          let g1 = set_node_attributes (\<lambda>a v. a\<lparr>norm_weight := Some v\<rparr>)
                     (zip (gnodes g) nws) g
          in (case step_norm_camps g1 of
                Inl e \<Rightarrow> Inl e
              | Inr camps \<Rightarrow>
                  (case step_norm_conflicts g1 of
                     Inl e \<Rightarrow> Inl e
                   | Inr conflicts \<Rightarrow>
                       let location_scores = map (\<lambda>n. location_score (attrs g1 n)) (gnodes g1);
                           scores = node_scores cfg nws location_scores camps conflicts
                       in Inr (set_node_attributes (\<lambda>a v. a\<lparr>node_score := Some v\<rparr>)
                                 (zip (gnodes g1) scores) g1,
                               camps, conflicts))))"

text \<open>
  \<open>step_score_values\<close> is lines 241 to 268 with what they leave behind: the graph, and
  the local lists \<^verbatim>\<open>num_camps\<close> and \<^verbatim>\<open>num_conflicts\<close> as rebound at lines 253 and
  258 (one normalised value per node, in node order). Only the graph outlives the step.
\<close>

definition step_scores :: "config \<Rightarrow> nxgraph \<Rightarrow> error + nxgraph" where
  "step_scores cfg g =
     (case step_score_values cfg g of
        Inl e \<Rightarrow> Inl e
      | Inr (g', camps, conflicts) \<Rightarrow> Inr g')"

section \<open>Destination choice: \<^verbatim>\<open>find_new_node\<close>\<close>

text \<open>
  The loop over the neighbours (lines 119 to 127), carrying
  \<^verbatim>\<open>most_desirable_score\<close> and \<^verbatim>\<open>most_desirable_neighbor\<close>.
\<close>

definition desirability ::
  "config \<Rightarrow> node_id list \<Rightarrow> node_id list \<Rightarrow> rat \<Rightarrow> node_id \<Rightarrow> rat" where
  "desirability cfg kin_nodes friend_nodes score n =
     of_nat (count_list kin_nodes n) * kin_weight cfg
       + of_nat (count_list friend_nodes n) * friend_weight cfg + score"

fun scan_neighbors ::
  "config \<Rightarrow> nxgraph \<Rightarrow> node_id list \<Rightarrow> node_id list \<Rightarrow> node_id list
     \<Rightarrow> rat \<Rightarrow> node_id option \<Rightarrow> error + node_id option" where
  "scan_neighbors cfg g kin_nodes friend_nodes [] best_score best = Inr best"
| "scan_neighbors cfg g kin_nodes friend_nodes (n # ns) best_score best =
     (case get_node_score g n of
        Inl e \<Rightarrow> Inl e
      | Inr sc \<Rightarrow>
          let d = desirability cfg kin_nodes friend_nodes sc n
          in if d > best_score
             then scan_neighbors cfg g kin_nodes friend_nodes ns d (Some n)
             else scan_neighbors cfg g kin_nodes friend_nodes ns best_score best)"

text \<open>\<^verbatim>\<open>[sim.all_refugees[k].node for k in ks]\<close>.\<close>

definition nodes_of :: "ref list \<Rightarrow> nat list \<Rightarrow> error + node_id list" where
  "nodes_of refs ks =
     map_r (\<lambda>k. case list_get refs k of Inl e \<Rightarrow> Inl e | Inr r \<Rightarrow> Inr (node r)) ks"

definition find_new_node :: "config \<Rightarrow> sim \<Rightarrow> node_id \<Rightarrow> nat \<Rightarrow> error + node_id option" where
  "find_new_node cfg s nd r =
     (if nd \<notin> set (gnodes (graph s)) then Inl NetworkXError
      else let neighbors = nbrs (graph s) nd
      in if length neighbors = 0 then Inr None
         else (case list_get (all_refugees s) r of
                 Inl e \<Rightarrow> Inl e
               | Inr self \<Rightarrow>
                   (case nodes_of (all_refugees s) (kin_list self) of
                      Inl e \<Rightarrow> Inl e
                    | Inr kin_nodes \<Rightarrow>
                        (case nodes_of (all_refugees s) (friend_list self) of
                           Inl e \<Rightarrow> Inl e
                         | Inr friend_nodes \<Rightarrow>
                             scan_neighbors cfg (graph s) kin_nodes friend_nodes neighbors
                               (- 99) None))))"

section \<open>One batch: \<^verbatim>\<open>process_refs\<close>\<close>

text \<open>Lines 143 to 151: whether the agent moves, and the position of the generator.\<close>

definition decide_move :: "config \<Rightarrow> rng \<Rightarrow> nat \<Rightarrow> int \<Rightarrow> int \<Rightarrow> bool \<times> nat" where
  "decide_move cfg R p conflicts camps =
     (if conflicts > 0 then (True, p)
      else if camps > 0
      then (fst (random_random R p) < percent_move_at_camp cfg, snd (random_random R p))
      else (fst (random_random R p) < percent_move_other cfg, snd (random_random R p)))"

text \<open>
  The body of the loop for one index \<open>r\<close> (lines 137 to 163). It yields the copied
  agent, the dictionary \<^verbatim>\<open>new_weights\<close> of this iteration (created afresh at line
  141) and the position of the generator.
\<close>

definition process_ref ::
  "config \<Rightarrow> rng \<Rightarrow> sim \<Rightarrow> nat \<Rightarrow> nat \<Rightarrow> error + ref \<times> (node_id \<Rightarrow> int) \<times> nat" where
  "process_ref cfg R s r p =
     (case list_get (all_refugees s) r of
        Inl e \<Rightarrow> Inl e
      | Inr self \<Rightarrow>
          (case node_data (graph s) (node self) of
             Inl e \<Rightarrow> Inl e
           | Inr a \<Rightarrow>
               let new_weights = (\<lambda>key. 0::int);
                   mv = decide_move cfg R p (num_conflicts a) (num_camps a)
               in if fst mv
                  then (case find_new_node cfg s (node self) r of
                          Inl e \<Rightarrow> Inl e
                        | Inr None \<Rightarrow> Inr (self, new_weights, snd mv)
                        | Inr (Some new_node) \<Rightarrow>
                            if truthy new_node
                            then Inr (self\<lparr>node := new_node\<rparr>,
                                      (new_weights(node self := new_weights (node self) - 1))
                                        (new_node :=
                                           (new_weights(node self := new_weights (node self) - 1))
                                             new_node + 1),
                                      snd mv)
                            else Inr (self, new_weights, snd mv))
                  else Inr (self, new_weights, snd mv)))"

text \<open>
  The loop over the batch. \<^verbatim>\<open>new_weights\<close> of an iteration is not used after it
  (third component of \<open>process_ref\<close>, dropped here).
\<close>

fun process_loop ::
  "config \<Rightarrow> rng \<Rightarrow> sim \<Rightarrow> nat list \<Rightarrow> nat \<Rightarrow> error + ref list \<times> nat" where
  "process_loop cfg R s [] p = Inr ([], p)"
| "process_loop cfg R s (r # rs) p =
     (case process_ref cfg R s r p of
        Inl e \<Rightarrow> Inl e
      | Inr (new_ref, new_weights, p') \<Rightarrow>
          (case process_loop cfg R s rs p' of
             Inl e \<Rightarrow> Inl e
           | Inr (new_refs, p'') \<Rightarrow> Inr (new_ref # new_refs, p'')))"

text \<open>Line 134: every node mapped to an empty list.\<close>

definition ref_nodes :: "nxgraph \<Rightarrow> (node_id \<times> int list) list" where
  "ref_nodes g = map (\<lambda>key. (key, [])) (gnodes g)"

text \<open>Line 166: the new agents and \<^verbatim>\<open>ref_nodes\<close>.\<close>

definition process_refs ::
  "config \<Rightarrow> rng \<Rightarrow> sim \<Rightarrow> nat list \<Rightarrow> nat
     \<Rightarrow> error + (ref list \<times> (node_id \<times> int list) list) \<times> nat" where
  "process_refs cfg R s refs p =
     (case process_loop cfg R s refs p of
        Inl e \<Rightarrow> Inl e
      | Inr (new_refs, p') \<Rightarrow> Inr ((new_refs, ref_nodes (graph s)), p'))"

section \<open>Merging the batches (lines 285 to 293 of \<^verbatim>\<open>Sim.step\<close>)\<close>

text \<open>
  \<^verbatim>\<open>pd.DataFrame(new_weights)\<close> has one row per dictionary and one column per node.
  A cell holds a number, a list, or nothing (the key is missing from the row's
  dictionary). A column with a list has dtype \<^verbatim>\<open>object\<close>;
  \<^verbatim>\<open>sum(numeric_only=True)\<close> keeps the numeric columns only, in column order, and
  adds up the numbers of each.
\<close>

datatype cell = CNum int | CList "int list" | CNaN

fun is_numeric :: "cell \<Rightarrow> bool" where
  "is_numeric (CList l) = False"
| "is_numeric _ = True"

fun cell_value :: "cell \<Rightarrow> int" where
  "cell_value (CNum v) = v"
| "cell_value _ = 0"

definition frame_column ::
  "nxgraph \<Rightarrow> (node_id \<times> int list) list list \<Rightarrow> node_id \<Rightarrow> cell list" where
  "frame_column g rows key =
     CNum (weight (attrs g key))
       # map (\<lambda>row. case map_of row key of None \<Rightarrow> CNaN | Some l \<Rightarrow> CList l) rows"

definition sum_numeric_only :: "cell list list \<Rightarrow> int list" where
  "sum_numeric_only cols =
     map (\<lambda>col. sum_list (map cell_value col)) (filter (\<lambda>col. list_all is_numeric col) cols)"

definition merge_results ::
  "sim \<Rightarrow> (ref list \<times> (node_id \<times> int list) list) list \<Rightarrow> sim" where
  "merge_results s results =
     (let refs = concat (map fst results);
          frame = map (frame_column (graph s) (map snd results)) (gnodes (graph s));
          new_weights = zip (gnodes (graph s)) (sum_numeric_only frame)
      in s\<lparr>all_refugees := refs,
            graph := set_node_attributes (\<lambda>a v. a\<lparr>weight := v\<rparr>) new_weights (graph s)\<rparr>)"

section \<open>Batches and workers (lines 270 to 283)\<close>

text \<open>
  \<^verbatim>\<open>np.array_split(xs, n)\<close>: \<open>n\<close> consecutive slices, the first
  \<open>len(xs) mod n\<close> of them one longer than the others; \<^verbatim>\<open>ValueError\<close> unless
  \<open>n\<close> is positive.
\<close>

fun split_sizes :: "'a list \<Rightarrow> nat list \<Rightarrow> 'a list list" where
  "split_sizes xs [] = []"
| "split_sizes xs (k # ks) = take k xs # split_sizes (drop k xs) ks"

definition array_split :: "'a list \<Rightarrow> int \<Rightarrow> error + 'a list list" where
  "array_split xs n =
     (if n \<le> 0 then Inl ValueError
      else let each_section = length xs div nat n; extras = length xs mod nat n
           in Inr (split_sizes xs
                     (replicate extras (each_section + 1)
                        @ replicate (nat n - extras) each_section)))"

text \<open>
  \<^verbatim>\<open>pool.map(partial_pr, chunked_refs)\<close>. Every worker process of the pool owns a copy
  of the simulation and of the generator, in the state the parent has when the step
  starts; a worker that runs several batches runs them in list order and goes on in its
  own copy of the stream. Which worker runs which batch is not fixed by the source:
  \<open>sched\<close> gives the worker of the \<open>i\<close>-th batch, and \<open>pos\<close> the position each worker
  has reached. The results come back in the order of the batches; the first batch that
  raises ends the call.
\<close>

fun pool_map ::
  "config \<Rightarrow> rng \<Rightarrow> sim \<Rightarrow> (nat \<Rightarrow> nat) \<Rightarrow> nat \<Rightarrow> nat list list \<Rightarrow> (nat \<Rightarrow> nat)
     \<Rightarrow> error + (ref list \<times> (node_id \<times> int list) list) list" where
  "pool_map cfg R s sched i [] pos = Inr []"
| "pool_map cfg R s sched i (b # bs) pos =
     (case process_refs cfg R s b (pos (sched i)) of
        Inl e \<Rightarrow> Inl e
      | Inr (res, p') \<Rightarrow>
          (case pool_map cfg R s sched (Suc i) bs (pos(sched i := p')) of
             Inl e \<Rightarrow> Inl e
           | Inr results \<Rightarrow> Inr (res # results)))"

text \<open>
  The two branches of lines 270 to 283, each with the position of the parent's generator
  after it: the workers advance their copies, not the parent's stream; the synchronous
  call reads the parent's stream.
\<close>

definition pool_results ::
  "(nat \<Rightarrow> nat) \<Rightarrow> nat list list \<Rightarrow> config \<Rightarrow> rng \<Rightarrow> sim \<Rightarrow> nat
     \<Rightarrow> error + (ref list \<times> (node_id \<times> int list) list) list \<times> nat" where
  "pool_results sched chunked_refs cfg R s p =
     (case pool_map cfg R s sched 0 chunked_refs (\<lambda>w. p) of
        Inl e \<Rightarrow> Inl e
      | Inr results \<Rightarrow> Inr (results, p))"

definition sync_results ::
  "config \<Rightarrow> rng \<Rightarrow> sim \<Rightarrow> nat
     \<Rightarrow> error + (ref list \<times> (node_id \<times> int list) list) list \<times> nat" where
  "sync_results cfg R s p =
     (case process_refs cfg R s [0..<length (all_refugees s)] p of
        Inl e \<Rightarrow> Inl e
      | Inr (res, p') \<Rightarrow> Inr ([res], p'))"

definition step_results ::
  "(nat \<Rightarrow> nat) \<Rightarrow> config \<Rightarrow> rng \<Rightarrow> sim \<Rightarrow> nat
     \<Rightarrow> error + (ref list \<times> (node_id \<times> int list) list) list \<times> nat" where
  "step_results sched cfg R s p =
     (if num_processes s > 1
      then (case array_split [0..<length (all_refugees s)] (num_batches s) of
              Inl e \<Rightarrow> Inl e
            | Inr chunked_refs \<Rightarrow> pool_results sched chunked_refs cfg R s p)
      else sync_results cfg R s p)"

text \<open>The schedule that gives the batches to the workers in turn.\<close>

definition round_robin :: "sim \<Rightarrow> nat \<Rightarrow> nat" where
  "round_robin s i = i mod nat (num_processes s)"

section \<open>Seeding (lines 295 to 304)\<close>

definition new_ref :: "node_id \<Rightarrow> ref" where
  "new_ref nd = \<lparr> node = nd, kin_list = [], friend_list = [] \<rparr>"

fun seed_loop :: "int \<Rightarrow> node_id list \<Rightarrow> sim \<Rightarrow> error option \<times> sim" where
  "seed_loop k [] s = (None, s)"
| "seed_loop k (nd # nds) s =
     (if nd \<notin> set (gnodes (graph s)) then (Some KeyError, s)
      else seed_loop k nds
             (s\<lparr>graph := (graph s)\<lparr>attrs := (attrs (graph s))
                           (nd := (attrs (graph s) nd)\<lparr>weight := weight (attrs (graph s) nd) + k\<rparr>)\<rparr>,
                 all_refugees := all_refugees s @ replicate (nat k) (new_ref nd)\<rparr>))"

text \<open>
  Lines 303 and 304. Class \<^verbatim>\<open>Ref\<close> has the methods
  \<^verbatim>\<open>create_defined_social_links\<close> and \<^verbatim>\<open>create_random_social_links\<close> and no
  method \<^verbatim>\<open>create_social_links\<close>: the first iteration of the loop raises
  \<^verbatim>\<open>AttributeError\<close> (or \<^verbatim>\<open>IndexError\<close>, when the index is outside the list).
\<close>

definition seed_links :: "int \<Rightarrow> sim \<Rightarrow> error option \<times> sim" where
  "seed_links new_ref_index s =
     (if new_ref_index < num_refugees s
      then (case py_get (all_refugees s) new_ref_index of
              Inl e \<Rightarrow> (Some e, s)
            | Inr r \<Rightarrow> (Some AttributeError, s))
      else (None, s))"

definition seed :: "config \<Rightarrow> sim \<Rightarrow> error option \<times> sim" where
  "seed cfg s =
     (let new_ref_index = num_refugees s;
          s1 = s\<lparr>num_refugees := num_refugees s + seed_refs cfg * int (length (seed_nodes cfg))\<rparr>
      in case seed_loop (seed_refs cfg) (seed_nodes cfg) s1 of
           (Some e, s2) \<Rightarrow> (Some e, s2)
         | (None, s2) \<Rightarrow> seed_links new_ref_index s2)"

section \<open>\<^verbatim>\<open>Sim.step\<close> and \<^verbatim>\<open>Sim.run\<close>\<close>

text \<open>
  The result of a step is the exception raised, if any, the simulation as the step leaves
  it, and the position of the parent's generator. \<open>exec\<close> is the way the batches are
  run (lines 270 to 283); \<^verbatim>\<open>Sim.step\<close> itself is \<open>step\<close>, with the batches of a pool
  given to the workers in turn.
\<close>

definition step_with ::
  "(sim \<Rightarrow> nat \<Rightarrow> error + (ref list \<times> (node_id \<times> int list) list) list \<times> nat)
     \<Rightarrow> config \<Rightarrow> sim \<Rightarrow> nat \<Rightarrow> error option \<times> sim \<times> nat" where
  "step_with exec cfg s p =
     (case step_scores cfg (graph s) of
        Inl e \<Rightarrow> (Some e, s, p)
      | Inr g' \<Rightarrow>
          let s1 = s\<lparr>graph := g'\<rparr>
          in (case exec s1 p of
                Inl e \<Rightarrow> (Some e, s1, p)
              | Inr (results, p') \<Rightarrow>
                  let s2 = merge_results s1 results
                  in if seed_refs cfg > 0
                     then (fst (seed cfg s2), snd (seed cfg s2), p')
                     else (None, s2, p')))"

definition step :: "config \<Rightarrow> rng \<Rightarrow> sim \<Rightarrow> nat \<Rightarrow> error option \<times> sim \<times> nat" where
  "step cfg R s p = step_with (step_results (round_robin s) cfg R) cfg s p"

text \<open>
  \<^verbatim>\<open>Sim.run\<close> without its timing and its shapefile output: the steps one after the
  other, an exception ending the run. After the loop the average step time is divided by
  \<^verbatim>\<open>num_steps\<close>.
\<close>

fun run_steps :: "config \<Rightarrow> rng \<Rightarrow> nat \<Rightarrow> sim \<Rightarrow> nat \<Rightarrow> error option \<times> sim \<times> nat" where
  "run_steps cfg R 0 s p = (None, s, p)"
| "run_steps cfg R (Suc k) s p =
     (case step cfg R s p of
        (Some e, s', p') \<Rightarrow> (Some e, s', p')
      | (None, s', p') \<Rightarrow> run_steps cfg R k s' p')"

definition run :: "config \<Rightarrow> rng \<Rightarrow> sim \<Rightarrow> nat \<Rightarrow> error option \<times> sim \<times> nat" where
  "run cfg R s p =
     (case run_steps cfg R (num_steps s) s p of
        (Some e, s', p') \<Rightarrow> (Some e, s', p')
      | (None, s', p') \<Rightarrow>
          if num_steps s = 0 then (Some ZeroDivisionError, s', p') else (None, s', p'))"

section \<open>Social links and construction: class \<^verbatim>\<open>Ref\<close> and \<^verbatim>\<open>Sim.__init__\<close>\<close>

text \<open>
  The loop \<^verbatim>\<open>while kin == index: kin = random.randint(0, sim.num_refugees - 1)\<close>.
  \<open>kin\<close> starts as \<open>index\<close>, so the body runs at least once; the loop goes on as long
  as the draw is \<open>index\<close>. It need not end, so the result is an \<open>option\<close>: \<open>None\<close>
  is the loop that never returns.
\<close>

partial_function (option) draw_other ::
  "rng \<Rightarrow> int \<Rightarrow> nat \<Rightarrow> nat \<Rightarrow> (error + nat \<times> nat) option" where
  "draw_other R n index p =
     (case randint R p 0 (n - 1) of
        Inl e \<Rightarrow> Some (Inl e)
      | Inr (k, p') \<Rightarrow>
          if k = int index then draw_other R n index p' else Some (Inr (nat k, p')))"

declare draw_other.simps [code]

text \<open>
  \<^verbatim>\<open>self.kin_list[kin] = 1\<close> and \<^verbatim>\<open>sim.all_refugees[kin].kin_list[index] = 1\<close>,
  where \<open>self\<close> is \<^verbatim>\<open>sim.all_refugees[index]\<close> (the constructor calls the method
  on the elements it enumerates). The same for friends.
\<close>

definition add_kin :: "nat \<Rightarrow> nat \<Rightarrow> ref list \<Rightarrow> error + ref list" where
  "add_kin index kin refs =
     (let refs1 = refs[index := (refs ! index)\<lparr>kin_list := dict_put (kin_list (refs ! index)) kin\<rparr>]
      in if kin < length refs1
         then Inr (refs1[kin := (refs1 ! kin)\<lparr>kin_list := dict_put (kin_list (refs1 ! kin)) index\<rparr>])
         else Inl IndexError)"

definition add_friend :: "nat \<Rightarrow> nat \<Rightarrow> ref list \<Rightarrow> error + ref list" where
  "add_friend index friend refs =
     (let refs1 = refs[index := (refs ! index)
                    \<lparr>friend_list := dict_put (friend_list (refs ! index)) friend\<rparr>]
      in if friend < length refs1
         then Inr (refs1[friend := (refs1 ! friend)
                    \<lparr>friend_list := dict_put (friend_list (refs1 ! friend)) index\<rparr>])
         else Inl IndexError)"

text \<open>
  One of the two \<^verbatim>\<open>for x in range(...)\<close> loops, \<open>c\<close> iterations left; \<open>add\<close> is
  \<open>add_kin\<close> or \<open>add_friend\<close>.
\<close>

fun link_loop ::
  "(nat \<Rightarrow> nat \<Rightarrow> ref list \<Rightarrow> error + ref list) \<Rightarrow> rng \<Rightarrow> int \<Rightarrow> nat \<Rightarrow> nat
     \<Rightarrow> ref list \<times> nat \<Rightarrow> (error + ref list \<times> nat) option" where
  "link_loop add R n index 0 st = Some (Inr st)"
| "link_loop add R n index (Suc c) st =
     (case draw_other R n index (snd st) of
        None \<Rightarrow> None
      | Some (Inl e) \<Rightarrow> Some (Inl e)
      | Some (Inr (other, p')) \<Rightarrow>
          (case add index other (fst st) of
             Inl e \<Rightarrow> Some (Inl e)
           | Inr refs' \<Rightarrow> link_loop add R n index c (refs', p')))"

text \<open>
  \<^verbatim>\<open>create_defined_social_links\<close>: \<^verbatim>\<open>range(config['num_kin'])\<close> raises
  \<^verbatim>\<open>TypeError\<close> on a tuple. \<open>n\<close> is \<^verbatim>\<open>sim.num_refugees\<close>.
\<close>

definition create_defined_social_links ::
  "config \<Rightarrow> rng \<Rightarrow> int \<Rightarrow> nat \<Rightarrow> ref list \<times> nat \<Rightarrow> (error + ref list \<times> nat) option" where
  "create_defined_social_links cfg R n index st =
     (case num_kin cfg of
        Range lo hi \<Rightarrow> Some (Inl TypeError)
      | Fixed k \<Rightarrow>
          (case link_loop add_kin R n index (nat k) st of
             None \<Rightarrow> None
           | Some (Inl e) \<Rightarrow> Some (Inl e)
           | Some (Inr st1) \<Rightarrow>
               (case num_friends cfg of
                  Range lo hi \<Rightarrow> Some (Inl TypeError)
                | Fixed f \<Rightarrow> link_loop add_friend R n index (nat f) st1)))"

text \<open>
  \<^verbatim>\<open>create_random_social_links\<close>: the number of iterations is drawn from the
  configured range; \<^verbatim>\<open>config['num_kin'][0]\<close> raises \<^verbatim>\<open>TypeError\<close> on an integer.
\<close>

definition create_random_social_links ::
  "config \<Rightarrow> rng \<Rightarrow> int \<Rightarrow> nat \<Rightarrow> ref list \<times> nat \<Rightarrow> (error + ref list \<times> nat) option" where
  "create_random_social_links cfg R n index st =
     (case num_kin cfg of
        Fixed k \<Rightarrow> Some (Inl TypeError)
      | Range lo hi \<Rightarrow>
          (case randint R (snd st) lo hi of
             Inl e \<Rightarrow> Some (Inl e)
           | Inr (k, p1) \<Rightarrow>
               (case link_loop add_kin R n index (nat k) (fst st, p1) of
                  None \<Rightarrow> None
                | Some (Inl e) \<Rightarrow> Some (Inl e)
                | Some (Inr st1) \<Rightarrow>
                    (case num_friends cfg of
                       Fixed f \<Rightarrow> Some (Inl TypeError)
                     | Range flo fhi \<Rightarrow>
                         (case randint R (snd st1) flo fhi of
                            Inl e \<Rightarrow> Some (Inl e)
                          | Inr (f, p2) \<Rightarrow>
                              link_loop add_friend R n index (nat f) (fst st1, p2))))))"

text \<open>\<^verbatim>\<open>for index, ref in enumerate(self.all_refugees): ref.create_...(index, self)\<close>.\<close>

fun links_for ::
  "(nat \<Rightarrow> ref list \<times> nat \<Rightarrow> (error + ref list \<times> nat) option) \<Rightarrow> nat list
     \<Rightarrow> ref list \<times> nat \<Rightarrow> (error + ref list \<times> nat) option" where
  "links_for create [] st = Some (Inr st)"
| "links_for create (index # rest) st =
     (case create index st of
        None \<Rightarrow> None
      | Some (Inl e) \<Rightarrow> Some (Inl e)
      | Some (Inr st') \<Rightarrow> links_for create rest st')"

text \<open>Lines 228 to 231: the population, and one agent per unit of weight of each node.\<close>

definition initial_refugees :: "nxgraph \<Rightarrow> ref list" where
  "initial_refugees g =
     concat (map (\<lambda>nd. replicate (nat (weight (attrs g nd))) (new_ref nd)) (gnodes g))"

text \<open>
  \<^verbatim>\<open>Sim.__init__\<close>: \<open>None\<close> when the construction never returns, the exception when
  it raises, the simulation and the position of the generator otherwise.
\<close>

definition Sim_init ::
  "config \<Rightarrow> rng \<Rightarrow> nxgraph \<Rightarrow> nat \<Rightarrow> int \<Rightarrow> int \<Rightarrow> nat \<Rightarrow> (error + sim \<times> nat) option" where
  "Sim_init cfg R g n_steps n_processes n_batches p =
     (let n = sum_list (orig_weights g);
          refs = initial_refugees g;
          create = (case num_friends cfg of
                      Fixed f \<Rightarrow> create_defined_social_links cfg R n
                    | Range lo hi \<Rightarrow> create_random_social_links cfg R n)
      in case links_for create [0..<length refs] (refs, p) of
           None \<Rightarrow> None
         | Some (Inl e) \<Rightarrow> Some (Inl e)
         | Some (Inr (refs', p')) \<Rightarrow>
             Some (Inr (\<lparr> graph = g, num_steps = n_steps, num_processes = n_processes,
                          num_batches = n_batches, num_refugees = n,
                          all_refugees = refs' \<rparr>, p')))"

section \<open>The invariant of the social links\<close>

text \<open>
  For the dictionary \<open>sel\<close> of every agent (\<open>kin_list\<close> or \<open>friend_list\<close>): each key is
  the index of another agent of the list, and that agent has the first one as a key.
\<close>

definition links_ok :: "(ref \<Rightarrow> nat list) \<Rightarrow> ref list \<Rightarrow> bool" where
  "links_ok sel refs =
     list_all
       (\<lambda>a. list_all (\<lambda>b. b < length refs \<and> b \<noteq> a \<and> a \<in> set (sel (refs ! b))) (sel (refs ! a)))
       [0..<length refs]"

definition social_ok :: "ref list \<Rightarrow> bool" where
  "social_ok refs = (links_ok kin_list refs \<and> links_ok friend_list refs)"

section \<open>The selection rule in the words of the specification\<close>



section \<open>Scenario inputs\<close>

text \<open>
  Node attributes as the graph-building code supplies them: the derived attributes are not
  set yet.
\<close>

definition plain_attrs :: "int \<Rightarrow> int \<Rightarrow> int \<Rightarrow> node_attrs" where
  "plain_attrs w k c =
     \<lparr> weight = w, num_conflicts = k, num_camps = c, location_score = 1 / 2,
       norm_weight = None, norm_camps = None, norm_conflicts = None, node_score = None \<rparr>"

text \<open>The path A, B, C with ten agents and one conflict at A.\<close>

definition path_graph :: nxgraph where
  "path_graph =
     \<lparr> gnodes = [NStr ''A'', NStr ''B'', NStr ''C''],
       attrs = (\<lambda>n. if n = NStr ''A'' then plain_attrs 10 1 0 else plain_attrs 0 0 0),
       nbrs = (\<lambda>n. if n = NStr ''A'' then [NStr ''B'']
                    else if n = NStr ''B'' then [NStr ''A'', NStr ''C'']
                    else if n = NStr ''C'' then [NStr ''B''] else []) \<rparr>"

text \<open>A graph of one node without agents.\<close>

definition empty_node_graph :: nxgraph where
  "empty_node_graph =
     \<lparr> gnodes = [NStr ''A''], attrs = (\<lambda>n. plain_attrs 0 0 0), nbrs = (\<lambda>n. []) \<rparr>"

text \<open>A simulation over a graph whose agents have no social links.\<close>

definition unlinked_sim :: "nxgraph \<Rightarrow> int \<Rightarrow> int \<Rightarrow> sim" where
  "unlinked_sim g n_processes n_batches =
     \<lparr> graph = g, num_steps = 1, num_processes = n_processes, num_batches = n_batches,
       num_refugees = sum_list (orig_weights g), all_refugees = initial_refugees g \<rparr>"

text \<open>
  Two adjacent nodes named 0 and 1, as in the random test graph of the source (integer
  node names, one conflict at every node), with two agents at node 1.
\<close>

definition int_pair_graph :: nxgraph where
  "int_pair_graph =
     \<lparr> gnodes = [NInt 0, NInt 1],
       attrs = (\<lambda>n. if n = NInt 1 then plain_attrs 2 1 0 else plain_attrs 0 1 0),
       nbrs = (\<lambda>n. if n = NInt 0 then [NInt 1] else if n = NInt 1 then [NInt 0] else []) \<rparr>"





text \<open>The configuration of the source with seeding switched on, at node B.\<close>

definition seeding_config :: config where
  "seeding_config = source_config\<lparr>seed_refs := 2, seed_nodes := [NStr ''B'']\<rparr>"

text \<open>Streams of raw random numbers.\<close>

definition succ_stream :: rng where
  "succ_stream = (\<lambda>i. Suc i)"

definition zero_stream :: rng where
  "zero_stream = (\<lambda>i. 0)"




section \<open>Library facts\<close>


lemma py_max_Cons:
  assumes "xs \<noteq> []"
  shows "py_max xs = Inr (Max (set xs))"
proof (cases xs)
  case Nil
  with assms show ?thesis by simp
next
  case (Cons a l)
  have "fold max l a = Max (set (a # l))" by (rule Max.set_eq_fold [symmetric])
  with Cons show ?thesis by (simp add: py_max_def)
qed

lemma py_max_Nil: "py_max [] = Inl ValueError"
  by (simp add: py_max_def)

lemma map_r_true_div:
  "map_r (\<lambda>x. true_div x m) xs =
     (if m = 0 \<and> xs \<noteq> [] then Inl ZeroDivisionError
      else Inr (map (\<lambda>x. of_int x / of_int m) xs))"
  by (induction xs) (auto simp: true_div_def)

lemma step_norm_weights_eq:
  "step_norm_weights g =
     (if gnodes g = [] then Inl ValueError
      else if Max (set (orig_weights g)) = 0 then Inl ZeroDivisionError
      else Inr (map (\<lambda>x. of_int x / of_int (Max (set (orig_weights g)))) (orig_weights g)))"
  by (simp add: step_norm_weights_def py_max_Cons py_max_Nil map_r_true_div orig_weights_def)

lemma normalize_floor1_eq:
  "normalize_floor1 xs = Inr (map (\<lambda>x. of_int x / of_int (Max (set (xs @ [1])))) xs)"
proof -
  have "1 \<le> Max (set (xs @ [1]))" by (rule Max_ge) simp_all
  then have "Max (set (xs @ [1])) \<noteq> 0" by linarith
  then show ?thesis
    by (simp add: normalize_floor1_def py_max_Cons map_r_true_div del: set_append)
qed

lemma gnodes_put_attr [simp]: "gnodes (put_attr upd kv g) = gnodes g"
  by (simp add: put_attr_def)

lemma nbrs_put_attr [simp]: "nbrs (put_attr upd kv g) = nbrs g"
  by (simp add: put_attr_def)

lemma gnodes_set_node_attributes [simp]: "gnodes (set_node_attributes upd kvs g) = gnodes g"
  unfolding set_node_attributes_def by (induction kvs arbitrary: g) simp_all

lemma nbrs_set_node_attributes [simp]: "nbrs (set_node_attributes upd kvs g) = nbrs g"
  unfolding set_node_attributes_def by (induction kvs arbitrary: g) simp_all

lemma field_set_node_attributes:
  assumes "\<And>a v. f (upd a v) = f a"
  shows "f (attrs (set_node_attributes upd kvs g) n) = f (attrs g n)"
  unfolding set_node_attributes_def
  by (induction kvs arbitrary: g) (simp_all add: put_attr_def assms)


lemma set_node_attributes_snoc:
  "set_node_attributes upd (kvs @ [kv]) g = put_attr upd kv (set_node_attributes upd kvs g)"
  by (simp add: set_node_attributes_def)

lemma norm_weight_set:
  assumes "n \<in> set (map fst kvs)" and "set (map fst kvs) \<subseteq> set (gnodes g)"
  shows "\<exists>v\<in>set (map snd kvs).
           norm_weight (attrs (set_node_attributes (\<lambda>a v. a\<lparr>norm_weight := Some v\<rparr>) kvs g) n)
             = Some v"
  using assms
proof (induction kvs rule: rev_induct)
  case Nil
  then show ?case by simp
next
  case (snoc kv kvs)
  show ?case
  proof (cases "fst kv = n")
    case True
    with snoc.prems show ?thesis
      by (simp add: set_node_attributes_snoc put_attr_def)
  next
    case False
    with snoc.prems have "n \<in> set (map fst kvs)" and "set (map fst kvs) \<subseteq> set (gnodes g)"
      by auto
    from snoc.IH [OF this] False show ?thesis
      by (auto simp: set_node_attributes_snoc put_attr_def)
  qed
qed

lemma step_norm_camps_set [simp]:
  "step_norm_camps (set_node_attributes (\<lambda>a v. a\<lparr>norm_weight := Some v\<rparr>) kvs g)
     = step_norm_camps g"
  by (simp add: step_norm_camps_def field_set_node_attributes)

lemma step_norm_conflicts_set [simp]:
  "step_norm_conflicts (set_node_attributes (\<lambda>a v. a\<lparr>norm_weight := Some v\<rparr>) kvs g)
     = step_norm_conflicts g"
  by (simp add: step_norm_conflicts_def field_set_node_attributes)

lemma step_norm_camps_eq:
  "step_norm_camps g =
     Inr (map (\<lambda>n. of_int (num_camps (attrs g n))
                 / of_int (Max (set (map (\<lambda>n. num_camps (attrs g n)) (gnodes g) @ [1]))))
            (gnodes g))"
  by (simp add: step_norm_camps_def normalize_floor1_eq o_def del: set_append)

lemma step_norm_conflicts_eq:
  "step_norm_conflicts g =
     Inr (map (\<lambda>n. of_int (num_conflicts (attrs g n))
                 / of_int (Max (set (map (\<lambda>n. num_conflicts (attrs g n)) (gnodes g) @ [1]))))
            (gnodes g))"
  by (simp add: step_norm_conflicts_def normalize_floor1_eq o_def del: set_append)

lemma step_score_values_eq:
  "step_score_values cfg g =
     (case step_norm_weights g of
        Inl e \<Rightarrow> Inl e
      | Inr nws \<Rightarrow>
          (case step_norm_camps g of
             Inl e \<Rightarrow> Inl e
           | Inr camps \<Rightarrow>
               (case step_norm_conflicts g of
                  Inl e \<Rightarrow> Inl e
                | Inr conflicts \<Rightarrow>
                    Inr (set_node_attributes (\<lambda>a v. a\<lparr>node_score := Some v\<rparr>)
                           (zip (gnodes g)
                              (node_scores cfg nws
                                 (map (\<lambda>n. location_score (attrs g n)) (gnodes g))
                                 camps conflicts))
                           (set_node_attributes (\<lambda>a v. a\<lparr>norm_weight := Some v\<rparr>)
                              (zip (gnodes g) nws) g),
                         camps, conflicts))))"
  by (simp add: step_score_values_def Let_def field_set_node_attributes
      split: sum.splits)

lemma step_scores_graph:
  assumes "step_scores cfg g = Inr g'"
  shows "gnodes g' = gnodes g" and "nbrs g' = nbrs g"
    and "weight (attrs g' n) = weight (attrs g n)"
    and "num_camps (attrs g' n) = num_camps (attrs g n)"
    and "num_conflicts (attrs g' n) = num_conflicts (attrs g n)"
  using assms
  by (auto simp: step_scores_def step_score_values_eq field_set_node_attributes
      split: sum.splits)

lemma unit_quotient:
  fixes x m :: int
  assumes "0 \<le> x" and "x \<le> m" and "m \<noteq> 0"
  shows "0 \<le> (of_int x / of_int m :: rat) \<and> (of_int x / of_int m :: rat) \<le> 1"
proof -
  from assms have "0 < m" by linarith
  then have "(0::rat) < of_int m" by simp
  moreover from assms have "(of_int x :: rat) \<le> of_int m" and "(0::rat) \<le> of_int x" by simp_all
  ultimately show ?thesis by (simp add: divide_le_eq)
qed

lemma normalize_floor1_bounds:
  assumes "\<forall>x\<in>set xs. 0 \<le> x" and "normalize_floor1 xs = Inr ys"
  shows "length ys = length xs \<and> (\<forall>y\<in>set ys. 0 \<le> y \<and> y \<le> 1)"
proof -
  let ?m = "Max (set (xs @ [1]))"
  have m1: "1 \<le> ?m" by (rule Max_ge) simp_all
  have ys: "ys = map (\<lambda>x. of_int x / of_int ?m) xs"
    using assms(2) by (simp only: normalize_floor1_eq sum.inject)
  have "0 \<le> (of_int x / of_int ?m :: rat) \<and> (of_int x / of_int ?m :: rat) \<le> 1"
    if "x \<in> set xs" for x
  proof (rule unit_quotient)
    show "0 \<le> x" using assms(1) that by blast
    show "x \<le> ?m" by (rule Max_ge) (use that in simp_all)
    show "?m \<noteq> 0" using m1 by linarith
  qed
  with ys show ?thesis by auto
qed


section \<open>Score recomputation\<close>

text \<open>
  Claim C5. The claim says that the maximum weight is floored at 1, so that a graph whose
  weights are all zero does not make the step fail. The source floors the maxima of the
  camps and of the conflicts (lines 252 and 257) and not the maximum of the weights (line
  245): on every non-empty graph whose weights are all zero the step raises
  \<^verbatim>\<open>ZeroDivisionError\<close> at line 246 and leaves the simulation as it was.
\<close>

theorem step_zero_weights_raises:
  assumes "gnodes (graph s) \<noteq> []"
    and "\<forall>n\<in>set (gnodes (graph s)). weight (attrs (graph s) n) = 0"
  shows "step cfg R s p = (Some ZeroDivisionError, s, p)"
proof -
  from assms have "set (orig_weights (graph s)) = {0}"
    by (cases "gnodes (graph s)") (auto simp: orig_weights_def)
  then have "Max (set (orig_weights (graph s))) = 0" by simp
  with assms(1) have "step_norm_weights (graph s) = Inl ZeroDivisionError"
    by (simp add: step_norm_weights_eq)
  then show ?thesis
    by (simp add: step_def step_with_def step_scores_def step_score_values_eq)
qed

theorem step_zero_weights_raises_witness:
  "gnodes (graph (unlinked_sim empty_node_graph 1 1)) \<noteq> []
   \<and> list_all (\<lambda>n. weight (attrs (graph (unlinked_sim empty_node_graph 1 1)) n) = 0)
         (gnodes (graph (unlinked_sim empty_node_graph 1 1)))
   \<and> step source_config zero_stream (unlinked_sim empty_node_graph 1 1) 0
       = (Some ZeroDivisionError, unlinked_sim empty_node_graph 1 1, 0)"
proof -
  have a: "gnodes (graph (unlinked_sim empty_node_graph 1 1)) \<noteq> []"
    by (simp add: unlinked_sim_def empty_node_graph_def)
  have b: "\<forall>n\<in>set (gnodes (graph (unlinked_sim empty_node_graph 1 1))).
         weight (attrs (graph (unlinked_sim empty_node_graph 1 1)) n) = 0"
    by (simp add: unlinked_sim_def empty_node_graph_def plain_attrs_def)
  from a b step_zero_weights_raises [OF a b, of source_config zero_stream 0]
  show ?thesis by (simp add: list_all_iff)
qed

lemma norm_weight_value:
  assumes "n \<in> set ns" and "set ns \<subseteq> set (gnodes g)"
  shows "norm_weight (attrs (set_node_attributes (\<lambda>a v. a\<lparr>norm_weight := Some v\<rparr>)
              (map (\<lambda>m. (m, f m)) ns) g) n) = Some (f n)"
  using assms
proof (induction ns rule: rev_induct)
  case Nil
  then show ?case by simp
next
  case (snoc m ns)
  show ?case
  proof (cases "m = n")
    case True
    with snoc.prems show ?thesis
      by (simp add: set_node_attributes_snoc put_attr_def)
  next
    case False
    with snoc.prems have "n \<in> set ns" and "set ns \<subseteq> set (gnodes g)" by auto
    from snoc.IH [OF this] False show ?thesis
      by (simp add: set_node_attributes_snoc put_attr_def)
  qed
qed

lemma zip_map_same: "zip xs (map f xs) = map (\<lambda>x. (x, f x)) xs"
  by (induction xs) simp_all

text \<open>
  Claim C6. The claim fails on two counts. A recomputation that completes stores
  \<^verbatim>\<open>norm_weight\<close> and \<^verbatim>\<open>node_score\<close> only: the normalised camps and conflicts are
  values of local lists, and no attribute \<^verbatim>\<open>norm_camps\<close> or \<^verbatim>\<open>norm_conflicts\<close>
  exists afterwards. And on a graph whose weights are all zero, which satisfies the
  hypothesis of the claim, the recomputation raises and stores nothing.
\<close>

theorem derived_attributes_counterexample:
  "(case step_score_values source_config path_graph of
      Inl e \<Rightarrow> False
    | Inr (g', camps, conflicts) \<Rightarrow>
        norm_weight (attrs g' (NStr ''A'')) = Some 1
        \<and> norm_camps (attrs g' (NStr ''A'')) = None
        \<and> norm_conflicts (attrs g' (NStr ''A'')) = None
        \<and> camps = [0, 0, 0] \<and> conflicts = [1, 0, 0])
   \<and> (case step_score_values source_config empty_node_graph of
        Inl e \<Rightarrow> e = ZeroDivisionError \<and> norm_weight (attrs empty_node_graph (NStr ''A'')) = None
      | Inr r \<Rightarrow> False)"
  by code_simp

text \<open>
  Claim C6 as amended. With non-negative weights, camp counts and conflict counts, a
  recomputation that completes stores at every node the attribute \<^verbatim>\<open>norm_weight\<close>,
  the weight divided by the greatest weight, a value in \<open>[0, 1]\<close>; the normalised camps
  and conflicts it computes are one value per node, in node order, the count divided by
  the greater of 1 and the greatest count, each in \<open>[0, 1]\<close>; they are not stored as node
  attributes. The recomputation completes when some weight is positive.
\<close>

theorem step_scores_normalized:
  assumes "\<forall>n\<in>set (gnodes g). 0 \<le> weight (attrs g n) \<and> 0 \<le> num_camps (attrs g n)
              \<and> 0 \<le> num_conflicts (attrs g n)"
  shows "(\<forall>g' camps conflicts. step_score_values cfg g = Inr (g', camps, conflicts) \<longrightarrow>
            (\<forall>n\<in>set (gnodes g). \<exists>v. norm_weight (attrs g' n) = Some v
                \<and> v = of_int (weight (attrs g n)) / of_int (Max (set (orig_weights g)))
                \<and> 0 \<le> v \<and> v \<le> 1)
          \<and> camps = map (\<lambda>n. of_int (num_camps (attrs g n))
                 / of_int (Max (set (map (\<lambda>n. num_camps (attrs g n)) (gnodes g) @ [1]))))
               (gnodes g)
          \<and> conflicts = map (\<lambda>n. of_int (num_conflicts (attrs g n))
                 / of_int (Max (set (map (\<lambda>n. num_conflicts (attrs g n)) (gnodes g) @ [1]))))
               (gnodes g)
          \<and> (\<forall>c\<in>set camps. 0 \<le> c \<and> c \<le> 1)
          \<and> (\<forall>k\<in>set conflicts. 0 \<le> k \<and> k \<le> 1)
          \<and> (\<forall>n. norm_camps (attrs g' n) = norm_camps (attrs g n)
                \<and> norm_conflicts (attrs g' n) = norm_conflicts (attrs g n)))
       \<and> ((\<exists>n\<in>set (gnodes g). 0 < weight (attrs g n)) \<longrightarrow>
            (\<exists>r. step_score_values cfg g = Inr r))"
proof (intro conjI allI impI)
  fix g' camps conflicts
  assume run: "step_score_values cfg g = Inr (g', camps, conflicts)"
  let ?ws = "orig_weights g"
  let ?m = "Max (set ?ws)"
  let ?h = "\<lambda>n. of_int (weight (attrs g n)) / of_int ?m :: rat"
  from run have ne: "gnodes g \<noteq> []" and m0: "?m \<noteq> 0"
    by (auto simp: step_score_values_eq step_norm_weights_eq split: if_splits)
  have nw: "step_norm_weights g = Inr (map ?h (gnodes g))"
    using ne m0 by (simp add: step_norm_weights_eq orig_weights_def o_def)
  let ?g1 = "set_node_attributes (\<lambda>a v. a\<lparr>norm_weight := Some v\<rparr>)
               (map (\<lambda>m. (m, ?h m)) (gnodes g)) g"
  from run nw have g': "g' = set_node_attributes (\<lambda>a v. a\<lparr>node_score := Some v\<rparr>)
        (zip (gnodes g)
           (node_scores cfg (map ?h (gnodes g))
              (map (\<lambda>n. location_score (attrs g n)) (gnodes g)) camps conflicts)) ?g1"
    and camps: "step_norm_camps g = Inr camps"
    and conflicts: "step_norm_conflicts g = Inr conflicts"
    by (auto simp: step_score_values_eq zip_map_same split: sum.splits)
  show "camps = map (\<lambda>n. of_int (num_camps (attrs g n))
                 / of_int (Max (set (map (\<lambda>n. num_camps (attrs g n)) (gnodes g) @ [1]))))
               (gnodes g)"
    using camps by (simp only: step_norm_camps_eq sum.inject)
  show "conflicts = map (\<lambda>n. of_int (num_conflicts (attrs g n))
                 / of_int (Max (set (map (\<lambda>n. num_conflicts (attrs g n)) (gnodes g) @ [1]))))
               (gnodes g)"
    using conflicts by (simp only: step_norm_conflicts_eq sum.inject)
  have "\<forall>x\<in>set (map (\<lambda>n. num_camps (attrs g n)) (gnodes g)). 0 \<le> x"
    using assms by auto
  from normalize_floor1_bounds [OF this camps [unfolded step_norm_camps_def]]
  show "\<forall>c\<in>set camps. 0 \<le> c \<and> c \<le> 1" by blast
  have "\<forall>x\<in>set (map (\<lambda>n. num_conflicts (attrs g n)) (gnodes g)). 0 \<le> x"
    using assms by auto
  from normalize_floor1_bounds [OF this conflicts [unfolded step_norm_conflicts_def]]
  show "\<forall>k\<in>set conflicts. 0 \<le> k \<and> k \<le> 1" by blast
  show "\<forall>n\<in>set (gnodes g). \<exists>v. norm_weight (attrs g' n) = Some v
                \<and> v = of_int (weight (attrs g n)) / of_int (Max (set (orig_weights g)))
                \<and> 0 \<le> v \<and> v \<le> 1"
  proof
    fix n assume n: "n \<in> set (gnodes g)"
    have "norm_weight (attrs g' n) = norm_weight (attrs ?g1 n)"
      unfolding g' by (rule field_set_node_attributes) simp
    also have "\<dots> = Some (?h n)" by (rule norm_weight_value) (use n in simp_all)
    finally have v: "norm_weight (attrs g' n) = Some (?h n)" .
    from n assms have "0 \<le> weight (attrs g n)" by blast
    moreover from n have "weight (attrs g n) \<in> set ?ws" by (auto simp: orig_weights_def)
    then have "weight (attrs g n) \<le> ?m" by (intro Max_ge) simp_all
    ultimately have "0 \<le> ?h n \<and> ?h n \<le> 1" using m0 by (intro unit_quotient)
    with v show "\<exists>v. norm_weight (attrs g' n) = Some v
                \<and> v = of_int (weight (attrs g n)) / of_int (Max (set (orig_weights g)))
                \<and> 0 \<le> v \<and> v \<le> 1" by simp
  qed
  fix n
  show "norm_camps (attrs g' n) = norm_camps (attrs g n)"
    unfolding g' by (simp add: field_set_node_attributes)
  show "norm_conflicts (attrs g' n) = norm_conflicts (attrs g n)"
    unfolding g' by (simp add: field_set_node_attributes)
next
  assume "\<exists>n\<in>set (gnodes g). 0 < weight (attrs g n)"
  then obtain n where n: "n \<in> set (gnodes g)" and pos: "0 < weight (attrs g n)" by blast
  then have "weight (attrs g n) \<in> set (orig_weights g)" by (auto simp: orig_weights_def)
  then have "weight (attrs g n) \<le> Max (set (orig_weights g))" by (intro Max_ge) simp_all
  with pos have "Max (set (orig_weights g)) \<noteq> 0" by linarith
  moreover from n have "gnodes g \<noteq> []" by auto
  ultimately show "\<exists>r. step_score_values cfg g = Inr r"
    by (simp add: step_score_values_eq step_norm_weights_eq step_norm_camps_eq
        step_norm_conflicts_eq del: set_append)
qed



theorem step_scores_normalized_witness:
  "list_all (\<lambda>n. 0 \<le> weight (attrs path_graph n)
        \<and> 0 \<le> num_camps (attrs path_graph n) \<and> 0 \<le> num_conflicts (attrs path_graph n))
     (gnodes path_graph)
   \<and> (\<exists>g' camps conflicts.
          step_score_values source_config path_graph = Inr (g', camps, conflicts)
          \<and> (\<exists>v. norm_weight (attrs g' (NStr ''A'')) = Some v \<and> 0 \<le> v \<and> v \<le> 1)
          \<and> length camps = 3 \<and> length conflicts = 3
          \<and> (\<forall>c\<in>set camps. 0 \<le> c \<and> c \<le> 1)
          \<and> (\<forall>k\<in>set conflicts. 0 \<le> k \<and> k \<le> 1)
          \<and> norm_camps (attrs g' (NStr ''A'')) = None)"
proof -
  have h: "\<forall>n\<in>set (gnodes path_graph). 0 \<le> weight (attrs path_graph n)
        \<and> 0 \<le> num_camps (attrs path_graph n) \<and> 0 \<le> num_conflicts (attrs path_graph n)"
    by (simp add: path_graph_def plain_attrs_def)
  have pos: "\<exists>n\<in>set (gnodes path_graph). 0 < weight (attrs path_graph n)"
    by (simp add: path_graph_def plain_attrs_def)
  have a: "NStr ''A'' \<in> set (gnodes path_graph)" and len: "length (gnodes path_graph) = 3"
    and nc: "norm_camps (attrs path_graph (NStr ''A'')) = None"
    by (simp_all add: path_graph_def plain_attrs_def)
  note T = step_scores_normalized [OF h, of source_config]
  from T pos obtain g' camps conflicts where
    run: "step_score_values source_config path_graph = Inr (g', camps, conflicts)"
    by (metis prod_cases3)
  from T run a have "\<exists>v. norm_weight (attrs g' (NStr ''A'')) = Some v \<and> 0 \<le> v \<and> v \<le> 1"
    by blast
  moreover from T run have "length camps = length (gnodes path_graph)"
    and "length conflicts = length (gnodes path_graph)" by (metis length_map)+
  moreover from T run have "\<forall>c\<in>set camps. 0 \<le> c \<and> c \<le> 1"
    and "\<forall>k\<in>set conflicts. 0 \<le> k \<and> k \<le> 1" by blast+
  moreover from T run nc have "norm_camps (attrs g' (NStr ''A'')) = None" by metis
  ultimately show ?thesis using h run len by (simp add: list_all_iff)
qed


section \<open>Batches, workers and the merge\<close>


lemma map_of_ref_nodes:
  "key \<in> set (gnodes g) \<Longrightarrow> map_of (ref_nodes g) key = Some []"
  unfolding ref_nodes_def by (induction "gnodes g" arbitrary: g) (auto simp: map_of_map_restrict)

lemma set_weights_same:
  "\<forall>kv\<in>set kvs. snd kv = weight (attrs g (fst kv)) \<Longrightarrow>
     set_node_attributes (\<lambda>a v. a\<lparr>weight := v\<rparr>) kvs g = g"
  unfolding set_node_attributes_def
  by (induction kvs) (simp_all add: put_attr_def)

lemma merge_results_graph:
  assumes "\<forall>r\<in>set results. snd r = ref_nodes (graph s)"
  shows "merge_results s results = s\<lparr>all_refugees := concat (map fst results)\<rparr>"
proof (cases results)
  case Nil
  have "set_node_attributes (\<lambda>a v. a\<lparr>weight := v\<rparr>)
          (zip (gnodes (graph s))
             (sum_numeric_only (map (frame_column (graph s) []) (gnodes (graph s)))))
          (graph s) = graph s"
    by (rule set_weights_same)
      (auto simp: sum_numeric_only_def frame_column_def zip_map2 o_def dest: set_zip_leftD
         simp: in_set_zip)
  with Nil show ?thesis by (simp add: merge_results_def)
next
  case (Cons r rs)
  with assms have rows: "map snd results = ref_nodes (graph s) # map snd rs" by simp
  have "\<not> list_all is_numeric (frame_column (graph s) (map snd results) key)"
    if "key \<in> set (gnodes (graph s))" for key
    using that by (simp add: rows frame_column_def map_of_ref_nodes)
  then have "filter (\<lambda>col. list_all is_numeric col)
               (map (frame_column (graph s) (map snd results)) (gnodes (graph s))) = []"
    by (simp add: filter_empty_conv)
  then show ?thesis
    by (simp add: merge_results_def sum_numeric_only_def set_node_attributes_def)
qed


lemma concat_split_sizes: "concat (split_sizes xs ks) = take (sum_list ks) xs"
proof (induction ks arbitrary: xs)
  case Nil
  then show ?case by simp
next
  case (Cons k ks)
  then show ?case by (simp add: take_add)
qed

lemma array_split_concat:
  assumes "array_split xs n = Inr bs"
  shows "concat bs = xs"
proof -
  from assms have n: "0 < n" by (auto simp: array_split_def split: if_splits)
  define m where "m = nat n"
  define e where "e = length xs div m"
  define a where "a = length xs mod m"
  from n have m: "0 < m" by (simp add: m_def)
  then have "a < m" by (simp add: a_def)
  then have "(m - a) * e + a * e = m * e"
    by (simp add: add_mult_distrib [symmetric])
  then have "sum_list (replicate a (e + 1) @ replicate (m - a) e) = m * e + a"
    by (simp add: sum_list_replicate)
  also have "\<dots> = length xs" by (simp add: e_def a_def)
  finally have total: "sum_list (replicate a (e + 1) @ replicate (m - a) e) = length xs" .
  from assms n have "bs = split_sizes xs (replicate a (e + 1) @ replicate (m - a) e)"
    by (simp add: array_split_def Let_def m_def e_def a_def)
  then show ?thesis by (simp only: concat_split_sizes total take_all order_refl)
qed


lemma process_refs_rows:
  "process_refs cfg R s rs p = Inr (res, p') \<Longrightarrow>
     snd res = ref_nodes (graph s) \<and> process_loop cfg R s rs p = Inr (fst res, p')"
  by (auto simp: process_refs_def split: sum.splits prod.splits)

lemma pool_map_rows:
  "pool_map cfg R s sched i bs pos = Inr results \<Longrightarrow>
     \<forall>r\<in>set results. snd r = ref_nodes (graph s)"
proof (induction bs arbitrary: i pos results)
  case Nil
  then show ?case by simp
next
  case (Cons b bs)
  from Cons.prems obtain res p' rest where
    b: "process_refs cfg R s b (pos (sched i)) = Inr (res, p')" and
    rest: "pool_map cfg R s sched (Suc i) bs (pos(sched i := p')) = Inr rest" and
    res: "results = res # rest"
    by (auto split: sum.splits prod.splits)
  from Cons.IH [OF rest] process_refs_rows [OF b] res show ?case by simp
qed

lemma step_results_rows:
  assumes "step_results sched cfg R s p = Inr (results, p')"
  shows "\<forall>r\<in>set results. snd r = ref_nodes (graph s)"
proof (cases "num_processes s > 1")
  case True
  with assms obtain bs where "pool_map cfg R s sched 0 bs (\<lambda>w. p) = Inr results"
    by (auto simp: step_results_def pool_results_def split: sum.splits)
  then show ?thesis by (rule pool_map_rows)
next
  case False
  with assms obtain res where "process_refs cfg R s [0..<length (all_refugees s)] p = Inr (res, p')"
    and "results = [res]"
    by (auto simp: step_results_def sync_results_def split: sum.splits prod.splits)
  with process_refs_rows show ?thesis by fastforce
qed

lemma step_with_merged:
  assumes "\<And>s1 q results q'. exec s1 q = Inr (results, q') \<Longrightarrow>
             \<forall>r\<in>set results. snd r = ref_nodes (graph s1)"
  shows "step_with exec cfg s p =
     (case step_scores cfg (graph s) of
        Inl e \<Rightarrow> (Some e, s, p)
      | Inr g' \<Rightarrow>
          (case exec (s\<lparr>graph := g'\<rparr>) p of
             Inl e \<Rightarrow> (Some e, s\<lparr>graph := g'\<rparr>, p)
           | Inr (results, p') \<Rightarrow>
               if seed_refs cfg > 0
               then (fst (seed cfg (s\<lparr>graph := g', all_refugees := concat (map fst results)\<rparr>)),
                     snd (seed cfg (s\<lparr>graph := g', all_refugees := concat (map fst results)\<rparr>)),
                     p')
               else (None, s\<lparr>graph := g', all_refugees := concat (map fst results)\<rparr>, p')))"
proof (cases "step_scores cfg (graph s)")
  case (Inl e)
  then show ?thesis by (simp add: step_with_def)
next
  case (Inr g')
  let ?s1 = "s\<lparr>graph := g'\<rparr>"
  show ?thesis
  proof (cases "exec ?s1 p")
    case (Inl e)
    with Inr show ?thesis by (simp add: step_with_def)
  next
    case r: (Inr res)
    obtain results p' where res: "res = (results, p')" by (cases res)
    from assms [OF r [unfolded res]] merge_results_graph [of results ?s1]
    have "merge_results ?s1 results = s\<lparr>graph := g', all_refugees := concat (map fst results)\<rparr>"
      by simp
    with Inr r res show ?thesis
      by (simp add: step_with_def Let_def)
  qed
qed

lemma step_merged:
  "step cfg R s p =
     (case step_scores cfg (graph s) of
        Inl e \<Rightarrow> (Some e, s, p)
      | Inr g' \<Rightarrow>
          (case step_results (round_robin s) cfg R (s\<lparr>graph := g'\<rparr>) p of
             Inl e \<Rightarrow> (Some e, s\<lparr>graph := g'\<rparr>, p)
           | Inr (results, p') \<Rightarrow>
               if seed_refs cfg > 0
               then (fst (seed cfg (s\<lparr>graph := g', all_refugees := concat (map fst results)\<rparr>)),
                     snd (seed cfg (s\<lparr>graph := g', all_refugees := concat (map fst results)\<rparr>)),
                     p')
               else (None, s\<lparr>graph := g', all_refugees := concat (map fst results)\<rparr>, p')))"
  unfolding step_def by (rule step_with_merged) (rule step_results_rows)

text \<open>
  Claim C2. Without seeding, a step leaves the weight of every node as it was, whatever
  the agents do: \<^verbatim>\<open>process_refs\<close> returns \<^verbatim>\<open>ref_nodes\<close>, which maps every node to
  the empty list, and the sum over the numeric columns of the frame changes no weight.
  This holds for every outcome of the step, also when it raises.
\<close>

theorem step_keeps_weights:
  assumes "seed_refs cfg = 0"
  shows "(\<forall>n. weight (attrs (graph (fst (snd (step cfg R s p)))) n) = weight (attrs (graph s) n))
       \<and> (\<forall>refs q new_refs deltas q'.
             process_refs cfg R s refs q = Inr ((new_refs, deltas), q') \<longrightarrow>
               deltas = ref_nodes (graph s)
               \<and> (\<forall>key\<in>set (gnodes (graph s)). map_of deltas key = Some []))"
proof (rule conjI)
  show "\<forall>n. weight (attrs (graph (fst (snd (step cfg R s p)))) n) = weight (attrs (graph s) n)"
    using assms
    by (auto simp: step_merged step_scores_graph split: sum.splits prod.splits)
next
  show "\<forall>refs q new_refs deltas q'.
             process_refs cfg R s refs q = Inr ((new_refs, deltas), q') \<longrightarrow>
               deltas = ref_nodes (graph s)
               \<and> (\<forall>key\<in>set (gnodes (graph s)). map_of deltas key = Some [])"
    by (auto simp: process_refs_def map_of_ref_nodes split: sum.splits prod.splits)
qed

theorem step_keeps_weights_witness:
  "seed_refs source_config = 0
   \<and> weight (attrs (graph (fst (snd (step source_config succ_stream
        (unlinked_sim path_graph 1 1) 0)))) (NStr ''A'')) = 10
   \<and> weight (attrs (graph (fst (snd (step source_config succ_stream
        (unlinked_sim path_graph 1 1) 0)))) (NStr ''B'')) = 0"
proof -
  have h: "seed_refs source_config = 0" by (simp add: source_config_def)
  from step_keeps_weights [OF h, of succ_stream "unlinked_sim path_graph 1 1" 0] h
  show ?thesis by (simp add: unlinked_sim_def path_graph_def plain_attrs_def)
qed

text \<open>
  Claim C1. The scenario of the claim, built by the constructor with the configuration of
  the source: the step moves all ten agents from A to B and completes, and the weights
  are still 10, 0, 0, not 0, 10, 0.
\<close>

theorem path_scenario_step:
  "(case Sim_init source_config succ_stream path_graph 1 1 1 0 of
      Some (Inr (s, p)) \<Rightarrow>
        (case step source_config succ_stream s p of
           (e, s', p') \<Rightarrow>
             e = None \<and> map node (all_refugees s) = replicate 10 (NStr ''A'')
             \<and> map node (all_refugees s') = replicate 10 (NStr ''B'')
             \<and> map (\<lambda>n. weight (attrs (graph s') n)) (gnodes (graph s')) = [10, 0, 0])
    | _ \<Rightarrow> False)"
  by code_simp


section \<open>Seeding\<close>

lemma seed_loop_num_refugees: "num_refugees (snd (seed_loop k nds s)) = num_refugees s"
  by (induction nds arbitrary: s) simp_all

lemma seed_loop_present:
  assumes "set nds \<subseteq> set (gnodes (graph s))"
  shows "fst (seed_loop k nds s) = None
       \<and> all_refugees (snd (seed_loop k nds s))
           = all_refugees s @ concat (map (\<lambda>nd. replicate (nat k) (new_ref nd)) nds)
       \<and> gnodes (graph (snd (seed_loop k nds s))) = gnodes (graph s)
       \<and> (\<forall>n. weight (attrs (graph (snd (seed_loop k nds s))) n)
                 = weight (attrs (graph s) n) + k * int (count_list nds n))"
  using assms
proof (induction nds arbitrary: s)
  case Nil
  then show ?case by simp
next
  case (Cons nd nds)
  let ?s' = "s\<lparr>graph := (graph s)\<lparr>attrs := (attrs (graph s))
                 (nd := (attrs (graph s) nd)\<lparr>weight := weight (attrs (graph s) nd) + k\<rparr>)\<rparr>,
               all_refugees := all_refugees s @ replicate (nat k) (new_ref nd)\<rparr>"
  from Cons.prems have nd: "nd \<in> set (gnodes (graph s))"
    and rest: "set nds \<subseteq> set (gnodes (graph ?s'))" by simp_all
  from Cons.IH [OF rest] nd show ?case
    by (simp add: algebra_simps)
qed

lemma seed_raises:
  assumes "0 < seed_refs cfg" and "seed_nodes cfg \<noteq> []"
  shows "fst (seed cfg s) \<noteq> None"
proof -
  let ?s1 = "s\<lparr>num_refugees := num_refugees s + seed_refs cfg * int (length (seed_nodes cfg))\<rparr>"
  obtain e s2 where loop: "seed_loop (seed_refs cfg) (seed_nodes cfg) ?s1 = (e, s2)"
    by (cases "seed_loop (seed_refs cfg) (seed_nodes cfg) ?s1")
  show ?thesis
  proof (cases e)
    case (Some err)
    with loop show ?thesis by (simp add: seed_def Let_def)
  next
    case None
    from assms have "0 < seed_refs cfg * int (length (seed_nodes cfg))" by simp
    moreover from seed_loop_num_refugees [of "seed_refs cfg" "seed_nodes cfg" ?s1] loop
    have "num_refugees s2 = num_refugees s + seed_refs cfg * int (length (seed_nodes cfg))"
      by simp
    ultimately have "num_refugees s < num_refugees s2" by linarith
    with None loop show ?thesis
      by (simp add: seed_def Let_def seed_links_def split: sum.splits)
  qed
qed

text \<open>
  Claim C3. With seeding enabled, no step completes: whatever precedes it, the seeding
  code raises. When every seed node is a node of the graph and the agents are as many as
  \<^verbatim>\<open>num_refugees\<close> says, it does increase the weights and append the fresh agents, and
  then raises \<^verbatim>\<open>AttributeError\<close> at the first new index, where it calls a method
  that class \<^verbatim>\<open>Ref\<close> does not have; the new agents are left without kin or friends.
\<close>

theorem seeding_raises:
  assumes "0 < seed_refs cfg" and "seed_nodes cfg \<noteq> []"
  shows "fst (step cfg R s p) \<noteq> None
       \<and> (set (seed_nodes cfg) \<subseteq> set (gnodes (graph s'))
            \<and> num_refugees s' = int (length (all_refugees s')) \<longrightarrow>
          fst (seed cfg s') = Some AttributeError
          \<and> all_refugees (snd (seed cfg s'))
              = all_refugees s'
                  @ concat (map (\<lambda>nd. replicate (nat (seed_refs cfg)) (new_ref nd)) (seed_nodes cfg))
          \<and> (\<forall>n. weight (attrs (graph (snd (seed cfg s'))) n)
                    = weight (attrs (graph s') n)
                        + seed_refs cfg * int (count_list (seed_nodes cfg) n)))"
proof (rule conjI)
  show "fst (step cfg R s p) \<noteq> None"
    using assms seed_raises [OF assms]
    by (simp add: step_merged split: sum.splits prod.splits)
next
  show "set (seed_nodes cfg) \<subseteq> set (gnodes (graph s'))
            \<and> num_refugees s' = int (length (all_refugees s')) \<longrightarrow>
          fst (seed cfg s') = Some AttributeError
          \<and> all_refugees (snd (seed cfg s'))
              = all_refugees s'
                  @ concat (map (\<lambda>nd. replicate (nat (seed_refs cfg)) (new_ref nd)) (seed_nodes cfg))
          \<and> (\<forall>n. weight (attrs (graph (snd (seed cfg s'))) n)
                    = weight (attrs (graph s') n)
                        + seed_refs cfg * int (count_list (seed_nodes cfg) n))"
  proof
    assume h: "set (seed_nodes cfg) \<subseteq> set (gnodes (graph s'))
            \<and> num_refugees s' = int (length (all_refugees s'))"
    let ?s1 = "s'\<lparr>num_refugees := num_refugees s' + seed_refs cfg * int (length (seed_nodes cfg))\<rparr>"
    let ?k = "seed_refs cfg"
    let ?r = "seed_loop ?k (seed_nodes cfg) ?s1"
    from h have sub: "set (seed_nodes cfg) \<subseteq> set (gnodes (graph ?s1))" by simp
    note L = seed_loop_present [OF sub, of ?k]
    from L have ok: "fst ?r = None" by blast
    from L have refs: "all_refugees (snd ?r)
           = all_refugees s' @ concat (map (\<lambda>nd. replicate (nat ?k) (new_ref nd)) (seed_nodes cfg))"
      by simp
    from L have ws: "\<forall>n. weight (attrs (graph (snd ?r)) n)
                 = weight (attrs (graph s') n) + ?k * int (count_list (seed_nodes cfg) n)"
      by simp
    have nr: "num_refugees (snd ?r) = num_refugees s' + ?k * int (length (seed_nodes cfg))"
      by (simp add: seed_loop_num_refugees)
    from assms have pos: "0 < ?k * int (length (seed_nodes cfg))" by simp
    obtain nd nds where sn: "seed_nodes cfg = nd # nds" using assms(2) by (cases "seed_nodes cfg") auto
    from assms(1) have "0 < nat ?k" by simp
    then have "0 < length (concat (map (\<lambda>nd. replicate (nat ?k) (new_ref nd)) (seed_nodes cfg)))"
      by (simp add: sn)
    then have "length (all_refugees s') < length (all_refugees (snd ?r))"
      unfolding refs by simp
    with h have inrange: "py_get (all_refugees (snd ?r)) (num_refugees s')
                 = Inr (all_refugees (snd ?r) ! length (all_refugees s'))"
      by (simp add: py_get_def)
    have links: "seed_links (num_refugees s') (snd ?r) = (Some AttributeError, snd ?r)"
      using nr pos inrange by (simp add: seed_links_def)
    have seed_eq: "seed cfg s' = (Some AttributeError, snd ?r)"
      using ok links by (cases ?r) (simp add: seed_def Let_def)
    show "fst (seed cfg s') = Some AttributeError
          \<and> all_refugees (snd (seed cfg s'))
              = all_refugees s'
                  @ concat (map (\<lambda>nd. replicate (nat (seed_refs cfg)) (new_ref nd)) (seed_nodes cfg))
          \<and> (\<forall>n. weight (attrs (graph (snd (seed cfg s'))) n)
                    = weight (attrs (graph s') n)
                        + seed_refs cfg * int (count_list (seed_nodes cfg) n))"
      using refs ws by (simp add: seed_eq)
  qed
qed


theorem seeding_raises_witness:
  "0 < seed_refs seeding_config \<and> seed_nodes seeding_config \<noteq> []
   \<and> set (seed_nodes seeding_config) \<subseteq> set (gnodes (graph (unlinked_sim path_graph 1 1)))
   \<and> num_refugees (unlinked_sim path_graph 1 1)
        = int (length (all_refugees (unlinked_sim path_graph 1 1)))
   \<and> fst (step seeding_config succ_stream (unlinked_sim path_graph 1 1) 0) \<noteq> None
   \<and> fst (seed seeding_config (unlinked_sim path_graph 1 1)) = Some AttributeError
   \<and> map node (all_refugees (snd (seed seeding_config (unlinked_sim path_graph 1 1))))
        = replicate 10 (NStr ''A'') @ [NStr ''B'', NStr ''B'']
   \<and> weight (attrs (graph (snd (seed seeding_config (unlinked_sim path_graph 1 1)))) (NStr ''B''))
        = 2"
proof -
  have a: "0 < seed_refs seeding_config" and b: "seed_nodes seeding_config \<noteq> []"
    by (simp_all add: seeding_config_def)
  have c: "set (seed_nodes seeding_config) \<subseteq> set (gnodes (graph (unlinked_sim path_graph 1 1)))"
    by (simp add: seeding_config_def unlinked_sim_def path_graph_def)
  have d: "num_refugees (unlinked_sim path_graph 1 1)
        = int (length (all_refugees (unlinked_sim path_graph 1 1)))"
    by (simp add: unlinked_sim_def path_graph_def plain_attrs_def initial_refugees_def
        orig_weights_def)
  have refs: "map node (all_refugees (unlinked_sim path_graph 1 1)) = replicate 10 (NStr ''A'')"
    by code_simp
  have w: "weight (attrs (graph (unlinked_sim path_graph 1 1)) (NStr ''B'')) = 0"
    by (simp add: unlinked_sim_def path_graph_def plain_attrs_def)
  from seeding_raises [OF a b, of succ_stream "unlinked_sim path_graph 1 1" 0
      "unlinked_sim path_graph 1 1"] c d
  have "fst (step seeding_config succ_stream (unlinked_sim path_graph 1 1) 0) \<noteq> None"
    and "fst (seed seeding_config (unlinked_sim path_graph 1 1)) = Some AttributeError"
    and "all_refugees (snd (seed seeding_config (unlinked_sim path_graph 1 1)))
           = all_refugees (unlinked_sim path_graph 1 1)
               @ concat (map (\<lambda>nd. replicate (nat (seed_refs seeding_config)) (new_ref nd))
                   (seed_nodes seeding_config))"
    and "weight (attrs (graph (snd (seed seeding_config (unlinked_sim path_graph 1 1)))) (NStr ''B''))
           = weight (attrs (graph (unlinked_sim path_graph 1 1)) (NStr ''B''))
               + seed_refs seeding_config * int (count_list (seed_nodes seeding_config) (NStr ''B''))"
    by blast+
  with a b c d refs w show ?thesis
    by (simp add: seeding_config_def new_ref_def numeral_2_eq_2)
qed


section \<open>Movement\<close>

text \<open>
  Claim C4. On a graph with integer node names, as the source's own test graph, an agent
  at node 1 whose only neighbour is node 0 is told to move (conflict at its node), and
  \<^verbatim>\<open>find_new_node\<close> returns node 0, its most desirable neighbour. The test
  \<^verbatim>\<open>if new_node:\<close> at line 157 takes 0 for "no node": the agent stays at node 1.
\<close>

theorem falsy_destination_is_dropped:
  "(case Sim_init source_config succ_stream int_pair_graph 1 1 1 0 of
      Some (Inr (s, p)) \<Rightarrow>
        (case step source_config succ_stream s p of
           (e, s', p') \<Rightarrow>
             e = None \<and> map node (all_refugees s) = [NInt 1, NInt 1]
             \<and> fst (decide_move source_config succ_stream p 1 0)
             \<and> find_new_node source_config (s\<lparr>graph := graph s'\<rparr>) (NInt 1) 0
                 = Inr (Some (NInt 0))
             \<and> find_new_node source_config (s\<lparr>graph := graph s'\<rparr>) (NInt 1) 1
                 = Inr (Some (NInt 0))
             \<and> map node (all_refugees s') = [NInt 1, NInt 1])
    | _ \<Rightarrow> False)"
  by code_simp


















section \<open>A pool of workers against the synchronous call\<close>























end
